theory Spec2Isabelle
  imports Complex_Main "HOL-Library.Word" "HOL-Library.Signed_Division" "HOL-Library.Multiset"
begin

section \<open>meta_p2: substitution correlation between overlapping mapped reads\<close>

text \<open>
  The development follows \<^verbatim>\<open>cmd/meta_p2/main.go\<close>. Go's \<^verbatim>\<open>int\<close> is a 64-bit
  two's-complement integer on the platforms the program is built for: a value of that
  type is an \<^typ>\<open>int\<close> from \<open>-2^63\<close> up to \<open>2^63 - 1\<close>, and every sum and difference
  the program computes is reduced into that range by \<open>int64\<close>. A \<^verbatim>\<open>byte\<close> of a base
  sequence is a \<^typ>\<open>char\<close>, a quality byte is an \<^typ>\<open>8 word\<close>. A run-time panic (index
  or slice bounds out of range) is the left injection of a sum.
\<close>

subsection \<open>Data\<close>

datatype panic = IndexOutOfRange | SliceBoundsOutOfRange

text \<open>Wrap-around of 64-bit signed arithmetic: the representative of \<open>k\<close> modulo \<open>2^64\<close>
  that lies between \<open>-2^63\<close> and \<open>2^63 - 1\<close>.\<close>

definition int64 :: "int \<Rightarrow> int" where
  "int64 k = (k + 2 ^ 63) mod 2 ^ 64 - 2 ^ 63"

text \<open>
  The only \<^verbatim>\<open>float64\<close> values the program stores in a profile are \<^verbatim>\<open>math.NaN()\<close>,
  \<^verbatim>\<open>0.0\<close> and \<^verbatim>\<open>1.0\<close>; the only operation it applies to a float itself is
  \<^verbatim>\<open>math.IsNaN\<close> (and one division in \<^verbatim>\<open>write\<close>, which is a parameter below).
\<close>

datatype float64 = NaN | Num real

fun IsNaN :: "float64 \<Rightarrow> bool" where
  "IsNaN NaN = True"
| "IsNaN (Num x) = False"

record MappedRead =
  Pos :: int
  Seq :: "char list"
  Qual :: "8 word list"

text \<open>\<^verbatim>\<open>SubProfile{Pos, Profile}\<close>; the position field is named \<open>SubPos\<close> here because
  \<open>Pos\<close> is taken by \<^typ>\<open>MappedRead\<close>.\<close>

record SubProfile =
  SubPos :: int
  Profile :: "float64 list"

definition Len :: "MappedRead \<Rightarrow> int" where
  "Len m = int (length (Seq m))"

text \<open>\<^verbatim>\<open>xs[i]\<close> and \<^verbatim>\<open>xs[lo:hi]\<close> with Go's bounds checks. An index is checked against the
  length. The upper bound of a slice expression is checked against the capacity, and the
  result may reach into the backing array beyond the length: \<open>spare\<close> holds the elements
  of the backing array between the length and the capacity of \<open>xs\<close>.\<close>

definition index :: "'a list \<Rightarrow> int \<Rightarrow> panic + 'a" where
  "index xs i = (if 0 \<le> i \<and> i < int (length xs) then Inr (xs ! nat i) else Inl IndexOutOfRange)"

definition slice :: "'a list \<Rightarrow> 'a list \<Rightarrow> int \<Rightarrow> int \<Rightarrow> panic + 'a list" where
  "slice xs spare lo hi =
     (if 0 \<le> lo \<and> lo \<le> hi \<and> hi \<le> int (length xs + length spare)
      then Inr (take (nat (hi - lo)) (drop (nat lo) (xs @ spare)))
      else Inl SliceBoundsOutOfRange)"

text \<open>The genetic code table is \<^verbatim>\<open>codeTable.Table\<close>, a Go map from codon strings to
  amino-acid bytes. Reading a key that is not in a Go map gives the zero value of the
  element type and no error.\<close>

type_synonym GeneticCode = "string \<rightharpoonup> char"

definition Table :: "GeneticCode \<Rightarrow> string \<Rightarrow> char" where
  "Table codeTable codon = (case codeTable codon of None \<Rightarrow> CHR 0x00 | Some aa \<Rightarrow> aa)"

subsection \<open>Codon comparison\<close>

definition isATGC :: "char \<Rightarrow> bool" where
  "isATGC b =
     (if b = CHR ''A'' then True
      else if b = CHR ''T'' then True
      else if b = CHR ''C'' then True
      else if b = CHR ''G'' then True
      else False)"

text \<open>The body of the branch \<^verbatim>\<open>if (pos+1)%3 == 0 && j > 1\<close> up to the \<^verbatim>\<open>append\<close>: the
  value of \<^verbatim>\<open>d\<close>, with every index and slice expression in the order Go evaluates them
  (\<^verbatim>\<open>&&\<close> does not evaluate its right operand when the left one is false). The two codon
  slices are reached only after \<^verbatim>\<open>a.Seq[i]\<close> and \<^verbatim>\<open>b.Seq[j]\<close> have passed their index
  checks, so their upper bounds \<open>i + 1\<close> and \<open>j + 1\<close> do not exceed the lengths and the
  capacities of the two sequences play no part (lemma \<open>slice_after_index\<close>); they are
  left out of \<open>MappedRead\<close>.\<close>

definition substitution ::
  "int \<Rightarrow> GeneticCode \<Rightarrow> MappedRead \<Rightarrow> MappedRead \<Rightarrow> int \<Rightarrow> int \<Rightarrow> panic + float64" where
  "substitution MINBQ codeTable a b i j =
     (case index (Seq a) i of Inl e \<Rightarrow> Inl e | Inr ai \<Rightarrow>
      if \<not> isATGC ai then Inr NaN else
      case index (Seq b) j of Inl e \<Rightarrow> Inl e | Inr bj \<Rightarrow>
      if \<not> isATGC bj then Inr NaN else
      case index (Qual a) i of Inl e \<Rightarrow> Inl e | Inr qa \<Rightarrow>
      if \<not> (MINBQ < uint qa) then Inr NaN else
      case index (Qual b) j of Inl e \<Rightarrow> Inl e | Inr qb \<Rightarrow>
      if \<not> (MINBQ < uint qb) then Inr NaN else
      case slice (Seq a) [] (int64 (i - 2)) (int64 (i + 1)) of
        Inl e \<Rightarrow> Inl e | Inr codonA \<Rightarrow>
      case slice (Seq b) [] (int64 (j - 2)) (int64 (j + 1)) of
        Inl e \<Rightarrow> Inl e | Inr codonB \<Rightarrow>
      let aaA = Table codeTable codonA; aaB = Table codeTable codonB in
      if aaA = aaB then (if ai \<noteq> bj then Inr (Num 1) else Inr (Num 0)) else Inr NaN)"

text \<open>The loop \<^verbatim>\<open>for j := 0; j < a.Len()-lag && j < b.Len(); j++\<close>. The counter stays
  below \<^verbatim>\<open>b.Len()\<close> and is a natural number; the expressions it enters wrap around. Go's
  \<^verbatim>\<open>%\<close> truncates towards zero, which is \<open>smod\<close>.\<close>

function cmrLoop ::
  "int \<Rightarrow> GeneticCode \<Rightarrow> MappedRead \<Rightarrow> MappedRead \<Rightarrow> int \<Rightarrow> nat \<Rightarrow> float64 list
     \<Rightarrow> panic + float64 list" where
  "cmrLoop MINBQ codeTable a b lag j subs =
     (if int j < int64 (Len a - lag) \<and> int j < Len b then
        (let i = int64 (int j + lag); pos = int64 (int j + Pos b) in
         if int64 (pos + 1) smod 3 = 0 \<and> 1 < j then
           (case substitution MINBQ codeTable a b i (int j) of
              Inl e \<Rightarrow> Inl e
            | Inr d \<Rightarrow> cmrLoop MINBQ codeTable a b lag (Suc j) (subs @ [d]))
         else cmrLoop MINBQ codeTable a b lag (Suc j) subs)
      else Inr subs)"
  by pat_completeness auto
termination
  by (relation "measure (\<lambda>(MINBQ, codeTable, a, b, lag, j, subs). length (Seq b) - j)")
     (auto simp: Len_def)

declare cmrLoop.simps [simp del]

definition compareMappedReads ::
  "int \<Rightarrow> MappedRead \<Rightarrow> MappedRead \<Rightarrow> GeneticCode \<Rightarrow> panic + SubProfile" where
  "compareMappedReads MINBQ a b codeTable =
     (let lag = int64 (Pos b - Pos a) in
      case cmrLoop MINBQ codeTable a b lag 0 [] of
        Inl e \<Rightarrow> Inl e
      | Inr subs \<Rightarrow> Inr \<lparr>SubPos = Pos b, Profile = subs\<rparr>)"

subsection \<open>Projection of an alignment record\<close>

text \<open>
  \<^verbatim>\<open>sam.Record\<close>, \<^verbatim>\<open>sam.CigarOp\<close> and \<^verbatim>\<open>sam.CigarOpType\<close> are types of an imported
  package. Of a record the program reads \<^verbatim>\<open>Pos\<close>, \<^verbatim>\<open>MapQ\<close>, \<^verbatim>\<open>Seq.Expand()\<close>,
  \<^verbatim>\<open>Qual\<close> and \<^verbatim>\<open>Cigar\<close>; \<open>RecSeq\<close> is the expanded sequence. \<open>RecSeqSpare\<close> and
  \<open>RecQualSpare\<close> are the elements of the backing arrays of \<^verbatim>\<open>r.Seq.Expand()\<close> and of
  \<^verbatim>\<open>r.Qual\<close> between length and capacity. Of a CIGAR operation the program reads
  \<^verbatim>\<open>Type()\<close> and \<^verbatim>\<open>Len()\<close>, a length that is never negative.
\<close>

datatype CigarOpType =
  CigarMatch | CigarInsertion | CigarDeletion | CigarSkipped | CigarSoftClipped
  | CigarHardClipped | CigarPadded | CigarEqual | CigarMismatch | CigarBack

datatype CigarOp = CigarOp (CigarType: CigarOpType) (CigarLen: nat)

record Record =
  RecPos :: int
  MapQ :: "8 word"
  RecSeq :: "char list"
  RecSeqSpare :: "char list"
  RecQual :: "8 word list"
  RecQualSpare :: "8 word list"
  Cigar :: "CigarOp list"

text \<open>
  \<^verbatim>\<open>bytes.ToUpper\<close> on ASCII bytes. \<^verbatim>\<open>Seq.Expand()\<close> yields letters of the nucleotide
  alphabet and the placeholder is \<^verbatim>\<open>'*'\<close>, all of them ASCII. On a byte above 127 Go
  decodes UTF-8, which this definition does not describe; the statements about
  \<open>Map2Ref\<close> below are made for ASCII reads.
\<close>

definition ascii :: "char \<Rightarrow> bool" where
  "ascii c = ((of_char c :: nat) < 128)"

definition lower :: "char \<Rightarrow> bool" where
  "lower c = (97 \<le> (of_char c :: nat) \<and> (of_char c :: nat) \<le> 122)"

definition toUpperByte :: "char \<Rightarrow> char" where
  "toUpperByte c = (if lower c then char_of ((of_char c :: nat) - 32) else c)"

definition ToUpper :: "char list \<Rightarrow> char list" where
  "ToUpper s = map toUpperByte s"

text \<open>The loop over \<^verbatim>\<open>r.Cigar\<close> with its \<^verbatim>\<open>switch\<close>: \<open>p\<close> is the position in the read,
  \<open>s\<close> and \<open>q\<close> are the results so far. The \<^verbatim>\<open>switch\<close> has no default case.\<close>

fun map2RefLoop ::
  "char list \<Rightarrow> char list \<Rightarrow> 8 word list \<Rightarrow> 8 word list \<Rightarrow> CigarOp list \<Rightarrow> int
     \<Rightarrow> char list \<Rightarrow> 8 word list \<Rightarrow> panic + (char list \<times> 8 word list)" where
  "map2RefLoop read readSpare qual qualSpare [] p s q = Inr (s, q)"
| "map2RefLoop read readSpare qual qualSpare (c # cigar) p s q =
     (if CigarType c \<in> {CigarMatch, CigarMismatch, CigarEqual} then
        (case slice read readSpare p (int64 (p + int (CigarLen c))) of
           Inl e \<Rightarrow> Inl e
         | Inr rs \<Rightarrow>
             (case slice qual qualSpare p (int64 (p + int (CigarLen c))) of
                Inl e \<Rightarrow> Inl e
              | Inr qs \<Rightarrow>
                  map2RefLoop read readSpare qual qualSpare cigar
                    (int64 (p + int (CigarLen c))) (s @ rs) (q @ qs)))
      else if CigarType c \<in> {CigarInsertion, CigarSoftClipped, CigarHardClipped} then
        map2RefLoop read readSpare qual qualSpare cigar (int64 (p + int (CigarLen c))) s q
      else if CigarType c \<in> {CigarDeletion, CigarSkipped} then
        map2RefLoop read readSpare qual qualSpare cigar p
          (s @ replicate (CigarLen c) (CHR ''*'')) (q @ replicate (CigarLen c) 0)
      else map2RefLoop read readSpare qual qualSpare cigar p s q)"

definition Map2Ref :: "Record \<Rightarrow> panic + (char list \<times> 8 word list)" where
  "Map2Ref r =
     (case map2RefLoop (RecSeq r) (RecSeqSpare r) (RecQual r) (RecQualSpare r) (Cigar r) 0 [] []
      of Inl e \<Rightarrow> Inl e
       | Inr (s, q) \<Rightarrow> Inr (ToUpper s, q))"

subsection \<open>Sliding window and pairing\<close>

text \<open>
  A channel is the list of the values sent on it, in order. \<open>slideLoop\<close> is the loop of
  \<^verbatim>\<open>slideReads\<close> over the records: \<open>mappedReadArr\<close> is the window and \<open>sent\<close> the windows
  sent so far. The loop ends when the records end; nothing is sent after it. The counters
  \<^verbatim>\<open>totalUsed\<close> and \<^verbatim>\<open>totalDiscards\<close> are never read and are left out.
\<close>

fun slideLoop ::
  "int \<Rightarrow> Record list \<Rightarrow> MappedRead list \<Rightarrow> MappedRead list list
     \<Rightarrow> panic + MappedRead list list" where
  "slideLoop MINMQ [] mappedReadArr sent = Inr sent"
| "slideLoop MINMQ (r # records) mappedReadArr sent =
     (if MINMQ < uint (MapQ r) \<and> uint (MapQ r) < 51 then
        (case Map2Ref r of
           Inl e \<Rightarrow> Inl e
         | Inr sq \<Rightarrow>
             (let current = \<lparr>Pos = RecPos r, Seq = fst sq, Qual = snd sq\<rparr>;
                  arr = mappedReadArr @ [current]
              in if 0 < length arr then
                   (let a = hd arr
                    in if int64 (Pos a + Len a) < Pos current
                       then slideLoop MINMQ records (tl arr) (sent @ [arr])
                       else slideLoop MINMQ records arr sent)
                 else slideLoop MINMQ records arr sent))
      else slideLoop MINMQ records mappedReadArr sent)"

definition slideReads :: "int \<Rightarrow> Record list \<Rightarrow> panic + MappedRead list list" where
  "slideReads MINMQ records = slideLoop MINMQ records [] []"

text \<open>\<^verbatim>\<open>compare\<close>: for each window the head \<open>a = reads[0]\<close> is compared with
  \<open>reads[1]\<close>, \<open>reads[2]\<close>, ... until the first read that starts after the end of \<open>a\<close>.\<close>

fun compareFrom ::
  "int \<Rightarrow> GeneticCode \<Rightarrow> MappedRead \<Rightarrow> MappedRead list \<Rightarrow> panic + SubProfile list" where
  "compareFrom MINBQ codeTable a [] = Inr []"
| "compareFrom MINBQ codeTable a (b # reads) =
     (if int64 (Len a + Pos a) < Pos b then Inr []
      else (case compareMappedReads MINBQ a b codeTable of
              Inl e \<Rightarrow> Inl e
            | Inr profile \<Rightarrow>
                (case compareFrom MINBQ codeTable a reads of
                   Inl e \<Rightarrow> Inl e
                 | Inr profiles \<Rightarrow> Inr (profile # profiles))))"

fun compare :: "int \<Rightarrow> MappedRead list list \<Rightarrow> GeneticCode \<Rightarrow> panic + SubProfile list" where
  "compare MINBQ [] codeTable = Inr []"
| "compare MINBQ (reads # readsChan) codeTable =
     (case index reads 0 of
        Inl e \<Rightarrow> Inl e
      | Inr a \<Rightarrow>
          (case compareFrom MINBQ codeTable a (drop 1 reads) of
             Inl e \<Rightarrow> Inl e
           | Inr profiles \<Rightarrow>
               (case compare MINBQ readsChan codeTable of
                  Inl e \<Rightarrow> Inl e
                | Inr others \<Rightarrow> Inr (profiles @ others))))"

subsection \<open>Lag covariance accumulation\<close>

text \<open>
  \<^verbatim>\<open>correlation.BivariateCovariance\<close> and \<^verbatim>\<open>meanvar.MeanVar\<close> are accumulators of an
  imported package. An accumulator is represented by the sequence of the \<^verbatim>\<open>Increment\<close>
  calls it has received, oldest first; a new accumulator is the empty sequence. What an
  accumulator reports (\<^verbatim>\<open>GetResult\<close>, \<^verbatim>\<open>GetN\<close>) is a parameter of the functions that ask.
\<close>

type_synonym BivariateCovariance = "(float64 \<times> float64) list"

type_synonym MeanVar = "float64 list"

text \<open>The inner loop \<^verbatim>\<open>for j := i; j < len(subProfile.Profile); j++\<close> of \<^verbatim>\<open>calc\<close>. The
  loop starts at \<open>j = i\<close>, so \<open>l\<close>, which is \<open>j - i\<close> whatever the wrap-around of the two
  positions (lemma \<open>calcInner_buckets\<close>), is never negative, and \<^verbatim>\<open>covs[l]\<close> is reached only
  below \<^verbatim>\<open>len(covs)\<close>.\<close>

function calcInner ::
  "SubProfile \<Rightarrow> int \<Rightarrow> float64 \<Rightarrow> nat \<Rightarrow> BivariateCovariance list
     \<Rightarrow> BivariateCovariance list" where
  "calcInner subProfile pos1 x j covs =
     (if j < length (Profile subProfile) then
        (let pos2 = int64 (SubPos subProfile + int j); l = int64 (pos2 - pos1)
         in if int (length covs) \<le> l then covs
            else (let y = Profile subProfile ! j
                  in if \<not> IsNaN y
                     then calcInner subProfile pos1 x (Suc j)
                            (covs[nat l := covs ! nat l @ [(x, y)]])
                     else calcInner subProfile pos1 x (Suc j) covs))
      else covs)"
  by pat_completeness auto
termination
  by (relation "measure (\<lambda>(subProfile, pos1, x, j, covs). length (Profile subProfile) - j)")
     auto

declare calcInner.simps [simp del]

function calcOuter ::
  "SubProfile \<Rightarrow> nat \<Rightarrow> BivariateCovariance list \<Rightarrow> BivariateCovariance list" where
  "calcOuter subProfile i covs =
     (if i < length (Profile subProfile) then
        (let pos1 = int64 (SubPos subProfile + int i); x = Profile subProfile ! i
         in if \<not> IsNaN x
            then calcOuter subProfile (Suc i) (calcInner subProfile pos1 x i covs)
            else calcOuter subProfile (Suc i) covs)
      else covs)"
  by pat_completeness auto
termination
  by (relation "measure (\<lambda>(subProfile, i, covs). length (Profile subProfile) - i)") auto

declare calcOuter.simps [simp del]

definition calc :: "SubProfile list \<Rightarrow> int \<Rightarrow> BivariateCovariance list" where
  "calc subProfileChan maxl =
     fold (\<lambda>subProfile covs. calcOuter subProfile 0 covs) subProfileChan
       (replicate (nat maxl) [])"

subsection \<open>Aggregation across batches and output\<close>

text \<open>What the program asks of the accumulators and of floating-point arithmetic.\<close>

record Stats =
  CovGetResult :: "BivariateCovariance \<Rightarrow> float64"
  MeanGetResult :: "MeanVar \<Rightarrow> float64"
  VarGetResult :: "MeanVar \<Rightarrow> float64"
  MeanGetN :: "MeanVar \<Rightarrow> int"
  Divide :: "float64 \<Rightarrow> float64 \<Rightarrow> float64"

text \<open>\<^verbatim>\<open>for i := range covs\<close> of \<^verbatim>\<open>collect\<close>; \<^verbatim>\<open>meanVars[i]\<close> is evaluated only for a
  result that is not NaN.\<close>

fun collectCovs ::
  "Stats \<Rightarrow> BivariateCovariance list \<Rightarrow> nat \<Rightarrow> MeanVar list \<Rightarrow> panic + MeanVar list" where
  "collectCovs st [] i meanVars = Inr meanVars"
| "collectCovs st (c # covs) i meanVars =
     (let v = CovGetResult st c
      in if \<not> IsNaN v then
           (case index meanVars (int i) of
              Inl e \<Rightarrow> Inl e
            | Inr mv \<Rightarrow> collectCovs st covs (Suc i) (meanVars[i := mv @ [v]]))
         else collectCovs st covs (Suc i) meanVars)"

fun collectLoop ::
  "Stats \<Rightarrow> BivariateCovariance list list \<Rightarrow> MeanVar list \<Rightarrow> panic + MeanVar list" where
  "collectLoop st [] meanVars = Inr meanVars"
| "collectLoop st (covs # covsChan) meanVars =
     (case collectCovs st covs 0 meanVars of
        Inl e \<Rightarrow> Inl e
      | Inr meanVars' \<Rightarrow> collectLoop st covsChan meanVars')"

text \<open>\<^verbatim>\<open>numJob\<close> and \<^verbatim>\<open>ShowProgress\<close> only drive the progress bar.\<close>

definition collect :: "Stats \<Rightarrow> BivariateCovariance list list \<Rightarrow> int \<Rightarrow> panic + MeanVar list" where
  "collect st covsChan maxl = collectLoop st covsChan (replicate (nat maxl) [])"

text \<open>A line of the output file after the header \<^verbatim>\<open>l,m,v,n,t,b\<close>, before formatting.\<close>

record Row =
  row_l :: nat
  row_m :: float64
  row_v :: float64
  row_n :: int
  row_t :: string
  row_b :: string

fun writeLoop :: "Stats \<Rightarrow> MeanVar list \<Rightarrow> nat \<Rightarrow> float64 \<Rightarrow> Row list" where
  "writeLoop st [] i ks = []"
| "writeLoop st (mv # meanVars) i ks =
     (let m = MeanGetResult st mv; v = VarGetResult st mv; n = MeanGetN st mv
      in if i = 0
         then \<lparr>row_l = i, row_m = m, row_v = v, row_n = n, row_t = ''Ks'', row_b = ''all''\<rparr>
                # writeLoop st meanVars (Suc i) m
         else \<lparr>row_l = i, row_m = Divide st m ks, row_v = v, row_n = n, row_t = ''P2'',
                row_b = ''all''\<rparr>
                # writeLoop st meanVars (Suc i) ks)"

text \<open>The rows \<^verbatim>\<open>write\<close> puts into the file it has created; \<open>write\<close> is a keyword of
  Isabelle and the function is named \<open>writeRows\<close>.\<close>

definition writeRows :: "Stats \<Rightarrow> MeanVar list \<Rightarrow> Row list" where
  "writeRows st meanVars = writeLoop st meanVars 0 (Num 0)"

subsection \<open>Definitions that follow the specification\<close>

text \<open>
  The offsets in the coordinates of \<open>b\<close> that the specification says are evaluated: those
  below both \<open>a.length - lag\<close> and \<open>b.length\<close>, on the third base of a codon and after
  the first codon of the read, in increasing order.
\<close>

definition spec_evaluated :: "MappedRead \<Rightarrow> MappedRead \<Rightarrow> nat list" where
  "spec_evaluated a b =
     filter (\<lambda>j. (int j + Pos b + 1) mod 3 = 0 \<and> 1 < j)
       [0..<nat (min (Len a - (Pos b - Pos a)) (Len b))]"

text \<open>The three bases that end at index \<open>i\<close>.\<close>

definition codonAt :: "char list \<Rightarrow> nat \<Rightarrow> string" where
  "codonAt s i = [s ! (i - 2), s ! (i - 1), s ! i]"

text \<open>The observation for offset \<open>j\<close> of \<open>b\<close>, in the words of the specification: missing
  unless the bases are among the four canonical symbols, the qualities exceed the minimum
  and the table gives both codons the same symbol; then 1 for different bases and 0 for
  equal ones. A codon that the table does not hold counts as the zero symbol.\<close>

definition spec_observation ::
  "int \<Rightarrow> GeneticCode \<Rightarrow> MappedRead \<Rightarrow> MappedRead \<Rightarrow> nat \<Rightarrow> float64" where
  "spec_observation MINBQ codeTable a b j =
     (let i = nat (int j + (Pos b - Pos a)) in
      if (Seq a ! i \<in> {CHR ''A'', CHR ''T'', CHR ''G'', CHR ''C''}
          \<and> Seq b ! j \<in> {CHR ''A'', CHR ''T'', CHR ''G'', CHR ''C''})
         \<and> (MINBQ < uint (Qual a ! i) \<and> MINBQ < uint (Qual b ! j))
         \<and> (case codeTable (codonAt (Seq a) i) of None \<Rightarrow> CHR 0x00 | Some aa \<Rightarrow> aa)
             = (case codeTable (codonAt (Seq b) j) of None \<Rightarrow> CHR 0x00 | Some aa \<Rightarrow> aa)
      then (if Seq a ! i \<noteq> Seq b ! j then Num 1 else Num 0)
      else NaN)"

text \<open>The positions and lengths of two reads for which the comparison stays clear of
  64-bit wrap-around: the lag \<open>b.Pos - a.Pos\<close> and the end \<open>b.Pos + b.Len\<close> of \<open>b\<close> are
  below \<open>2^63\<close>, and \<open>b.Pos\<close> and the two lengths are values of a Go \<^verbatim>\<open>int\<close>.\<close>

definition no_overflow :: "MappedRead \<Rightarrow> MappedRead \<Rightarrow> bool" where
  "no_overflow a b =
     (Pos b - Pos a < 2 ^ 63 \<and> Pos b + Len b < 2 ^ 63
      \<and> - (2 ^ 63) \<le> Pos b \<and> Len a < 2 ^ 63 \<and> Len b < 2 ^ 63)"

text \<open>
  What the specification says the projection emits, for the bases (with placeholder
  \<open>*\<close>) and for the qualities (with placeholder 0) alike: a match, mismatch or equal
  operation copies its stretch of the read; an insertion or a soft or hard clip consumes
  its stretch and emits nothing; a deletion or a skip emits one placeholder for each
  reference position; any other operation does nothing.
\<close>

fun spec_emit :: "'a \<Rightarrow> 'a list \<Rightarrow> CigarOp list \<Rightarrow> nat \<Rightarrow> 'a list" where
  "spec_emit placeholder xs [] p = []"
| "spec_emit placeholder xs (c # cigar) p =
     (if CigarType c \<in> {CigarMatch, CigarMismatch, CigarEqual}
      then take (CigarLen c) (drop p xs) @ spec_emit placeholder xs cigar (p + CigarLen c)
      else if CigarType c \<in> {CigarInsertion, CigarSoftClipped, CigarHardClipped}
      then spec_emit placeholder xs cigar (p + CigarLen c)
      else if CigarType c \<in> {CigarDeletion, CigarSkipped}
      then replicate (CigarLen c) placeholder @ spec_emit placeholder xs cigar p
      else spec_emit placeholder xs cigar p)"

text \<open>Every stretch that a match, mismatch or equal operation copies ends within the first
  \<open>n\<close> elements, when insertions and soft and hard clips are counted as consumed.\<close>

fun in_read :: "nat \<Rightarrow> CigarOp list \<Rightarrow> nat \<Rightarrow> bool" where
  "in_read n [] p = True"
| "in_read n (c # cigar) p =
     (if CigarType c \<in> {CigarMatch, CigarMismatch, CigarEqual}
      then p + CigarLen c \<le> n \<and> in_read n cigar (p + CigarLen c)
      else if CigarType c \<in> {CigarInsertion, CigarSoftClipped, CigarHardClipped}
      then in_read n cigar (p + CigarLen c)
      else in_read n cigar p)"

text \<open>The pair that entry \<open>i\<close> of a profile forms with the entry \<open>l\<close> places after it, if
  both exist and neither is NaN.\<close>

definition pairs_at_distance :: "float64 list \<Rightarrow> nat \<Rightarrow> nat \<Rightarrow> (float64 \<times> float64) list" where
  "pairs_at_distance profile l i =
     (if \<not> IsNaN (profile ! i) \<and> i + l < length profile \<and> \<not> IsNaN (profile ! (i + l))
      then [(profile ! i, profile ! (i + l))] else [])"

subsection \<open>Example inputs\<close>

text \<open>A fragment of a genetic code table; two reads that overlap with lag 3, and the
  records they are projected from; a read with an undetermined base in its first codon; a
  read whose only codon is not in the table.\<close>

definition example_table :: GeneticCode where
  "example_table =
     [''ATG'' \<mapsto> CHR ''M'', ''AAA'' \<mapsto> CHR ''K'', ''AAG'' \<mapsto> CHR ''K'', ''TTT'' \<mapsto> CHR ''F'',
      ''TTC'' \<mapsto> CHR ''F'', ''GGG'' \<mapsto> CHR ''G'', ''CCC'' \<mapsto> CHR ''P'']"

definition example_a :: MappedRead where
  "example_a = \<lparr>Pos = 0, Seq = ''ATGAAATTTGGG'', Qual = replicate 12 40\<rparr>"

definition example_b :: MappedRead where
  "example_b = \<lparr>Pos = 3, Seq = ''AAGTTCGGGCCC'', Qual = replicate 12 40\<rparr>"

definition example_b_unknown :: MappedRead where
  "example_b_unknown = \<lparr>Pos = 3, Seq = ''ANGTTCGGGCCC'', Qual = replicate 12 40\<rparr>"

definition example_n :: MappedRead where
  "example_n = \<lparr>Pos = 0, Seq = ''NNA'', Qual = [40, 40, 40]\<rparr>"

text \<open>A read with another codon that is not in the table, a read with an undetermined base
  at the third position of its first codon, and a read with a low quality there.\<close>

definition example_ntc :: MappedRead where
  "example_ntc = \<lparr>Pos = 0, Seq = ''NTC'', Qual = [40, 40, 40]\<rparr>"

definition example_b_ambiguous :: MappedRead where
  "example_b_ambiguous = \<lparr>Pos = 3, Seq = ''AANTTCGGGCCC'', Qual = replicate 12 40\<rparr>"

definition example_b_low :: MappedRead where
  "example_b_low = \<lparr>Pos = 3, Seq = ''AAGTTCGGGCCC'', Qual = [40, 40, 13] @ replicate 9 40\<rparr>"

text \<open>Two reads at the upper end of the range of a Go \<^verbatim>\<open>int\<close>, and two reads at its two
  ends.\<close>

definition example_far_a :: MappedRead where
  "example_far_a = \<lparr>Pos = 2 ^ 63 - 6, Seq = ''AAAAAAAAA'', Qual = replicate 9 40\<rparr>"

definition example_far_b :: MappedRead where
  "example_far_b = \<lparr>Pos = 2 ^ 63 - 6, Seq = ''AAAAAAAGA'', Qual = replicate 9 40\<rparr>"



definition record_a :: Record where
  "record_a = \<lparr>RecPos = 0, MapQ = 40, RecSeq = ''ATGAAATTTGGG'', RecSeqSpare = [],
     RecQual = replicate 12 40, RecQualSpare = [],
     Cigar = [CigarOp CigarMatch 12]\<rparr>"

definition record_b :: Record where
  "record_b = \<lparr>RecPos = 3, MapQ = 40, RecSeq = ''AAGTTCGGGCCC'', RecSeqSpare = [],
     RecQual = replicate 12 40, RecQualSpare = [],
     Cigar = [CigarOp CigarMatch 12]\<rparr>"

text \<open>A third read that overlaps both, a fourth read far behind them, and their
  records.\<close>

definition example_c :: MappedRead where
  "example_c = \<lparr>Pos = 6, Seq = ''TTTGGGCCCAAA'', Qual = replicate 12 40\<rparr>"

definition example_d :: MappedRead where
  "example_d = \<lparr>Pos = 30, Seq = ''ATGAAATTTGGG'', Qual = replicate 12 40\<rparr>"

definition record_c :: Record where
  "record_c = \<lparr>RecPos = 6, MapQ = 40, RecSeq = ''TTTGGGCCCAAA'', RecSeqSpare = [],
     RecQual = replicate 12 40, RecQualSpare = [],
     Cigar = [CigarOp CigarMatch 12]\<rparr>"

definition record_d :: Record where
  "record_d = \<lparr>RecPos = 30, MapQ = 40, RecSeq = ''ATGAAATTTGGG'', RecSeqSpare = [],
     RecQual = replicate 12 40, RecQualSpare = [],
     Cigar = [CigarOp CigarMatch 12]\<rparr>"

text \<open>A record with a leading hard clip, as aligners write them (the clipped bases are not
  stored in the read), and a record with one operation of most kinds.\<close>

definition hard_clipped :: Record where
  "hard_clipped =
     \<lparr>RecPos = 0, MapQ = 40, RecSeq = ''ACGTA'', RecSeqSpare = [],
      RecQual = [30, 30, 30, 30, 30], RecQualSpare = [],
      Cigar = [CigarOp CigarHardClipped 3, CigarOp CigarMatch 5]\<rparr>"

definition example_record :: Record where
  "example_record =
     \<lparr>RecPos = 7, MapQ = 40, RecSeq = ''ACGTACGT'', RecSeqSpare = ''NN'',
      RecQual = [30, 31, 32, 33, 34, 35, 36, 37], RecQualSpare = [9, 9, 9],
      Cigar = [CigarOp CigarSoftClipped 1, CigarOp CigarMatch 2, CigarOp CigarInsertion 1,
               CigarOp CigarEqual 1, CigarOp CigarDeletion 2, CigarOp CigarMismatch 3]\<rparr>"

text \<open>A record whose qualities are a slice of length 2 in a backing array of 4.\<close>

definition short_quality :: Record where
  "short_quality =
     \<lparr>RecPos = 0, MapQ = 40, RecSeq = ''ACGT'', RecSeqSpare = [],
      RecQual = [30, 31], RecQualSpare = [32, 33],
      Cigar = [CigarOp CigarMatch 4]\<rparr>"

text \<open>A stand-in for the statistics package, to run the functions on examples: a
  covariance that is NaN exactly for an empty accumulator, and the results of two batches
  with two lag buckets each.\<close>

fun num :: "float64 \<Rightarrow> real" where
  "num NaN = 0"
| "num (Num x) = x"

definition example_stats :: Stats where
  "example_stats =
     \<lparr>CovGetResult = (\<lambda>c. if c = [] then NaN else Num (real (length c))),
      MeanGetResult = (\<lambda>mv. if mv = [] then NaN else Num (sum_list (map num mv) / real (length mv))),
      VarGetResult = (\<lambda>mv. NaN),
      MeanGetN = (\<lambda>mv. int (length mv)),
      Divide = (\<lambda>x y. Num (num x / num y))\<rparr>"

definition example_covs :: "BivariateCovariance list list" where
  "example_covs =
     [[[(Num 1, Num 1)], []],
      [[(Num 0, Num 0), (Num 1, Num 1)], [(Num 0, Num 1)]]]"

section \<open>Properties\<close>

subsection \<open>Wrap-around and slices\<close>

lemma int64_id: "- (2 ^ 63) \<le> k \<Longrightarrow> k < 2 ^ 63 \<Longrightarrow> int64 k = k"
  by (simp add: int64_def)

lemma int64_le: "0 \<le> k \<Longrightarrow> int64 k \<le> k"
proof -
  assume "0 \<le> k"
  then have "(k + 2 ^ 63) mod 2 ^ 64 \<le> k + 2 ^ 63"
    by (intro zmod_le_nonneg_dividend) simp
  then show ?thesis by (simp add: int64_def)
qed

lemma int64_add_left: "int64 (int64 x + y) = int64 (x + y)"
proof -
  have "(int64 x + y + 2 ^ 63) mod 2 ^ 64 = ((x + 2 ^ 63) mod 2 ^ 64 + y) mod 2 ^ 64"
    by (simp add: int64_def algebra_simps)
  also have "\<dots> = (x + 2 ^ 63 + y) mod 2 ^ 64"
    by (rule mod_add_left_eq)
  also have "\<dots> = (x + y + 2 ^ 63) mod 2 ^ 64"
    by (simp add: algebra_simps)
  finally show ?thesis by (simp add: int64_def)
qed

lemma int64_diff: "int64 (int64 x - int64 y) = int64 (x - y)"
proof -
  have "(int64 x - int64 y + 2 ^ 63) mod 2 ^ 64
          = ((x + 2 ^ 63) mod 2 ^ 64 - (y + 2 ^ 63) mod 2 ^ 64 + 2 ^ 63) mod 2 ^ 64"
    by (simp add: int64_def algebra_simps)
  also have "\<dots> = ((x + 2 ^ 63) - (y + 2 ^ 63) + 2 ^ 63) mod 2 ^ 64"
    by (metis mod_add_left_eq mod_diff_eq)
  finally show ?thesis by (simp add: int64_def)
qed

text \<open>After \<^verbatim>\<open>xs[i]\<close> has passed its index check, the slice \<^verbatim>\<open>xs[i-2:i+1]\<close> behaves the same
  whatever lies between the length and the capacity of \<open>xs\<close>.\<close>

lemma slice_after_index:
  assumes "index xs i = Inr x"
  shows "slice xs spare (int64 (i - 2)) (int64 (i + 1)) = slice xs [] (int64 (i - 2)) (int64 (i + 1))"
proof -
  from assms have i: "0 \<le> i" "i < int (length xs)"
    by (auto simp: index_def split: if_splits)
  then have "int64 (i + 1) \<le> i + 1" by (intro int64_le) simp
  with i have hi: "int64 (i + 1) \<le> int (length xs)" by simp
  show ?thesis
  proof (cases "0 \<le> int64 (i - 2) \<and> int64 (i - 2) \<le> int64 (i + 1)")
    case True
    with hi have "nat (int64 (i + 1) - int64 (i - 2)) + nat (int64 (i - 2)) \<le> length xs"
      by linarith
    then have "take (nat (int64 (i + 1) - int64 (i - 2))) (drop (nat (int64 (i - 2))) (xs @ spare))
      = take (nat (int64 (i + 1) - int64 (i - 2))) (drop (nat (int64 (i - 2))) xs)"
      by simp
    with True hi show ?thesis by (simp add: slice_def)
  next
    case False
    then show ?thesis by (auto simp: slice_def)
  qed
qed

subsection \<open>The codon comparison inside its bounds\<close>

lemma smod3_zero: "(k::int) smod 3 = 0 \<longleftrightarrow> k mod 3 = 0"
  by (auto simp: signed_modulo_int_def sgn_if zmod_zminus1_eq_if split: if_splits)

lemma slice_codon:
  assumes "2 \<le> i" "i < length s" "length s < 2 ^ 63"
  shows "slice s [] (int64 (int i - 2)) (int64 (int i + 1)) = Inr (codonAt s i)"
proof -
  have "take 3 (drop (i - 2) s) = [s ! (i - 2), s ! (i - 1), s ! i]"
    using assms by (auto simp: list_eq_iff_nth_eq nth_Cons' numeral_3_eq_3 less_Suc_eq_0_disj)
  moreover have "int64 (int i - 2) = int i - 2" "int64 (int i + 1) = int i + 1"
    using assms by (simp_all add: int64_id)
  ultimately show ?thesis using assms
    by (simp add: slice_def codonAt_def nat_diff_distrib)
qed

lemma substitution_in_bounds:
  assumes "0 \<le> Pos b - Pos a"
    and "length (Qual a) = length (Seq a)" and "length (Qual b) = length (Seq b)"
    and "int j < Len a - (Pos b - Pos a)" and "int j < Len b" and "1 < j"
    and "Len a < 2 ^ 63" and "Len b < 2 ^ 63"
  shows "substitution MINBQ codeTable a b (int j + (Pos b - Pos a)) (int j)
           = Inr (spec_observation MINBQ codeTable a b j)"
proof -
  define i where "i = nat (int j + (Pos b - Pos a))"
  have i: "int j + (Pos b - Pos a) = int i" "i < length (Seq a)" "2 \<le> i" "j < length (Seq b)" "2 \<le> j"
    "length (Seq a) < 2 ^ 63" "length (Seq b) < 2 ^ 63"
    using assms by (auto simp: i_def Len_def)
  have ca: "slice (Seq a) [] (int64 (int i - 2)) (int64 (int i + 1)) = Inr (codonAt (Seq a) i)"
    using i by (intro slice_codon) auto
  have cb: "slice (Seq b) [] (int64 (int j - 2)) (int64 (int j + 1)) = Inr (codonAt (Seq b) j)"
    using i by (intro slice_codon) auto
  show ?thesis
    unfolding substitution_def spec_observation_def i i_def[symmetric]
    using i assms(2,3) by (simp add: index_def ca cb Let_def isATGC_def Table_def)
qed

lemma cmrLoop_in_bounds:
  assumes "lag = Pos b - Pos a" and "0 \<le> lag" and "no_overflow a b"
    and "length (Qual a) = length (Seq a)" and "length (Qual b) = length (Seq b)"
  shows "cmrLoop MINBQ codeTable a b lag j subs
           = Inr (subs @ map (spec_observation MINBQ codeTable a b)
                   (filter (\<lambda>j. (int j + Pos b + 1) mod 3 = 0 \<and> 1 < j)
                      [j..<nat (min (Len a - lag) (Len b))]))"
  using assms
proof (induction MINBQ codeTable a b lag j subs rule: cmrLoop.induct)
  case (1 MINBQ codeTable a b lag j subs)
  let ?n = "nat (min (Len a - lag) (Len b))"
  let ?P = "\<lambda>j. (int j + Pos b + 1) mod 3 = 0 \<and> 1 < j"
  let ?obs = "spec_observation MINBQ codeTable a b"
  from "1.prems" have range: "lag < 2 ^ 63" "Pos b + Len b < 2 ^ 63" "- (2 ^ 63) \<le> Pos b"
    "Len a < 2 ^ 63" "Len b < 2 ^ 63" "0 \<le> Len a"
    by (simp_all add: no_overflow_def Len_def)
  from range "1.prems"(2) have bound: "int64 (Len a - lag) = Len a - lag"
    by (intro int64_id) simp_all
  show ?case
  proof (cases "int j < Len a - lag \<and> int j < Len b")
    case False
    then have e: "[j..<?n] = []" by auto
    show ?thesis
      by (subst cmrLoop.simps)
         (simp only: bound False if_False e filter.simps list.map append_Nil2)
  next
    case True
    then have up: "[j..<?n] = j # [Suc j..<?n]" by (auto simp: upt_conv_Cons)
    from True range "1.prems"(2) have w: "int64 (int j + lag) = int j + lag"
      "int64 (int j + Pos b) = int j + Pos b" "int64 (int j + Pos b + 1) = int j + Pos b + 1"
      by (simp_all add: int64_id)
    show ?thesis
    proof (cases "?P j")
      case hit: True
      have s: "substitution MINBQ codeTable a b (int j + lag) (int j) = Inr (?obs j)"
        using True hit "1.prems" range substitution_in_bounds [of b a j MINBQ codeTable] by simp
      have "cmrLoop MINBQ codeTable a b lag (Suc j) (subs @ [?obs j])
            = Inr ((subs @ [?obs j]) @ map ?obs (filter ?P [Suc j..<?n]))"
        using True hit s "1.prems" bound w by (intro "1.IH"(1)) (auto simp: smod3_zero)
      then show ?thesis using True hit s
        by (subst cmrLoop.simps) (simp add: up smod3_zero Let_def bound w)
    next
      case miss: False
      have "cmrLoop MINBQ codeTable a b lag (Suc j) subs
            = Inr (subs @ map ?obs (filter ?P [Suc j..<?n]))"
        using True miss "1.prems" bound w by (intro "1.IH"(2)) (auto simp: smod3_zero)
      then show ?thesis using True miss
        by (subst cmrLoop.simps) (auto simp add: up smod3_zero Let_def bound w)
    qed
  qed
qed

lemma compareMappedReads_in_bounds:
  assumes "Pos a \<le> Pos b" and "no_overflow a b"
    and "length (Qual a) = length (Seq a)" and "length (Qual b) = length (Seq b)"
  shows "compareMappedReads MINBQ a b codeTable
           = Inr \<lparr>SubPos = Pos b,
                  Profile = map (spec_observation MINBQ codeTable a b) (spec_evaluated a b)\<rparr>"
proof -
  from assms(1,2) have "int64 (Pos b - Pos a) = Pos b - Pos a"
    by (intro int64_id) (simp_all add: no_overflow_def)
  with cmrLoop_in_bounds [where a = a and b = b and j = 0 and subs = "[]"
      and lag = "Pos b - Pos a"] assms
  show ?thesis by (simp add: compareMappedReads_def spec_evaluated_def)
qed





subsection \<open>Evaluation of the examples\<close>

lemmas cmr_eval = compareMappedReads_def cmrLoop.simps substitution_def index_def slice_def
        Len_def isATGC_def Table_def signed_modulo_int_def int64_def

lemma example_evaluated: "spec_evaluated example_a example_b = [2, 5, 8]"
  by (simp add: spec_evaluated_def example_a_def example_b_def Len_def upt_rec)

lemma example_unknown_evaluated: "spec_evaluated example_a example_b_unknown = [2, 5, 8]"
  by (simp add: spec_evaluated_def example_a_def example_b_unknown_def Len_def upt_rec)

lemma example_ambiguous_evaluated: "spec_evaluated example_a example_b_ambiguous = [2, 5, 8]"
  by (simp add: spec_evaluated_def example_a_def example_b_ambiguous_def Len_def upt_rec)

lemma example_low_evaluated: "spec_evaluated example_a example_b_low = [2, 5, 8]"
  by (simp add: spec_evaluated_def example_a_def example_b_low_def Len_def upt_rec)

lemma example_n_evaluated: "spec_evaluated example_n example_n = [2]"
  by (simp add: spec_evaluated_def example_n_def Len_def upt_rec)

lemma example_far_evaluated: "spec_evaluated example_far_a example_far_b = [3, 6]"
  by (simp add: spec_evaluated_def example_far_a_def example_far_b_def Len_def upt_rec)

lemma example_hyps:
  "Pos example_a \<le> Pos example_b"
  "no_overflow example_a example_b"
  "length (Qual example_a) = length (Seq example_a)"
  "length (Qual example_b) = length (Seq example_b)"
  by (simp_all add: example_a_def example_b_def no_overflow_def Len_def)

lemma example_unknown_hyps:
  "Pos example_a \<le> Pos example_b_unknown"
  "no_overflow example_a example_b_unknown"
  "length (Qual example_a) = length (Seq example_a)"
  "length (Qual example_b_unknown) = length (Seq example_b_unknown)"
  by (simp_all add: example_a_def example_b_unknown_def no_overflow_def Len_def)

lemma example_ambiguous_hyps:
  "Pos example_a \<le> Pos example_b_ambiguous"
  "no_overflow example_a example_b_ambiguous"
  "length (Qual example_a) = length (Seq example_a)"
  "length (Qual example_b_ambiguous) = length (Seq example_b_ambiguous)"
  by (simp_all add: example_a_def example_b_ambiguous_def no_overflow_def Len_def)

lemma example_low_hyps:
  "Pos example_a \<le> Pos example_b_low"
  "no_overflow example_a example_b_low"
  "length (Qual example_a) = length (Seq example_a)"
  "length (Qual example_b_low) = length (Seq example_b_low)"
  by (simp_all add: example_a_def example_b_low_def no_overflow_def Len_def)

lemma example_n_hyps:
  "Pos example_n \<le> Pos example_n"
  "no_overflow example_n example_n"
  "length (Qual example_n) = length (Seq example_n)"
  by (simp_all add: example_n_def no_overflow_def Len_def)

subsection \<open>Evaluated offsets\<close>




subsection \<open>Observations\<close>

text \<open>
  Claim C5 as the specification states it fails on two codons that the table does not
  hold: \<open>NNA\<close> and \<open>NTC\<close> encode no amino acid, yet the observation at their third bases,
  which differ, is 1 and not missing. It also fails where the position wraps around: for
  the two reads at \<open>2^63 - 6\<close> the second evaluated position of the specification is
  offset 6, where the bases are equal, yet the second observation is 1.
\<close>

theorem compareMappedReads_observation_counterexample:
  "example_table ''NNA'' = None \<and> example_table ''NTC'' = None
   \<and> compareMappedReads 13 example_n example_ntc example_table
       = Inr \<lparr>SubPos = 0, Profile = [Num 1]\<rparr>
   \<and> spec_evaluated example_far_a example_far_b = [3, 6]
   \<and> Seq example_far_a ! 6 = Seq example_far_b ! 6
   \<and> compareMappedReads 13 example_far_a example_far_b example_table
       = Inr \<lparr>SubPos = 2 ^ 63 - 6, Profile = [Num 0, Num 1]\<rparr>"
proof -
  have "example_table ''NNA'' = None \<and> example_table ''NTC'' = None
   \<and> compareMappedReads 13 example_n example_ntc example_table
       = Inr \<lparr>SubPos = 0, Profile = [Num 1]\<rparr>"
    by (simp add: cmr_eval example_n_def example_ntc_def example_table_def)
  moreover have "compareMappedReads 13 example_far_a example_far_b example_table
       = Inr \<lparr>SubPos = 2 ^ 63 - 6, Profile = [Num 0, Num 1]\<rparr>"
    by (simp add: cmr_eval example_far_a_def example_far_b_def example_table_def)
  moreover have "Seq example_far_a ! 6 = Seq example_far_b ! 6"
    by (simp add: example_far_a_def example_far_b_def)
  ultimately show ?thesis by (simp add: example_far_evaluated)
qed

text \<open>
  Claim C5, as the code has it. For reads as in C4 (\<open>lag \<ge> 0\<close>, no wrap-around, equal
  lengths of bases and qualities), the \<open>k\<close>-th entry of the profile, which belongs to the
  \<open>k\<close>-th evaluated offset \<open>j\<close> of \<open>b\<close> and index \<open>i = j + lag\<close> of \<open>a\<close>, is missing (NaN)
  unless both bases are one of A, T, G, C, both qualities are strictly above \<open>MINBQ\<close>, and
  the lookups of the codons that end at \<open>i\<close> and at \<open>j\<close> give the same symbol, where a
  codon that is not in the table looks up as the zero symbol (so that two absent codons
  agree); when all three hold it is 1 if the two bases differ and 0 if they are equal.
\<close>

theorem compareMappedReads_observation:
  assumes "Pos a \<le> Pos b" and "no_overflow a b"
    and "length (Qual a) = length (Seq a)" and "length (Qual b) = length (Seq b)"
    and "k < length (spec_evaluated a b)"
    and "j = spec_evaluated a b ! k" and "i = nat (int j + (Pos b - Pos a))"
  shows "\<exists>p. compareMappedReads MINBQ a b codeTable = Inr p
           \<and> Profile p ! k =
               (if (Seq a ! i \<in> {CHR ''A'', CHR ''T'', CHR ''G'', CHR ''C''}
                    \<and> Seq b ! j \<in> {CHR ''A'', CHR ''T'', CHR ''G'', CHR ''C''})
                   \<and> (MINBQ < uint (Qual a ! i) \<and> MINBQ < uint (Qual b ! j))
                   \<and> (case codeTable [Seq a ! (i - 2), Seq a ! (i - 1), Seq a ! i] of
                         None \<Rightarrow> CHR 0x00 | Some aa \<Rightarrow> aa)
                       = (case codeTable [Seq b ! (j - 2), Seq b ! (j - 1), Seq b ! j] of
                            None \<Rightarrow> CHR 0x00 | Some aa \<Rightarrow> aa)
                then (if Seq a ! i \<noteq> Seq b ! j then Num 1 else Num 0)
                else NaN)"
  using assms compareMappedReads_in_bounds [OF assms(1-4), of MINBQ codeTable]
  by (simp add: spec_observation_def codonAt_def Let_def del: insert_iff)

theorem compareMappedReads_observation_witness:
  "(\<exists>p. compareMappedReads 13 example_a example_b example_table = Inr p
        \<and> Profile p ! 0 = Num 1 \<and> Profile p ! 2 = Num 0)
   \<and> (\<exists>p. compareMappedReads 13 example_a example_b_unknown example_table = Inr p
        \<and> Profile p ! 0 = NaN)
   \<and> (\<exists>p. compareMappedReads 13 example_a example_b_ambiguous example_table = Inr p
        \<and> Profile p ! 0 = NaN)
   \<and> (\<exists>p. compareMappedReads 13 example_a example_b_low example_table = Inr p
        \<and> Profile p ! 0 = NaN)"
proof -
  have k: "0 < length (spec_evaluated example_a example_b)"
    "2 = spec_evaluated example_a example_b ! 0"
    "5 = nat (int 2 + (Pos example_b - Pos example_a))"
    "2 < length (spec_evaluated example_a example_b)"
    "8 = spec_evaluated example_a example_b ! 2"
    "11 = nat (int 8 + (Pos example_b - Pos example_a))"
    by (simp_all add: example_evaluated) (simp_all add: example_a_def example_b_def)
  have ku: "0 < length (spec_evaluated example_a example_b_unknown)"
    "2 = spec_evaluated example_a example_b_unknown ! 0"
    "5 = nat (int 2 + (Pos example_b_unknown - Pos example_a))"
    by (simp_all add: example_unknown_evaluated)
       (simp_all add: example_a_def example_b_unknown_def)
  have ka: "0 < length (spec_evaluated example_a example_b_ambiguous)"
    "2 = spec_evaluated example_a example_b_ambiguous ! 0"
    "5 = nat (int 2 + (Pos example_b_ambiguous - Pos example_a))"
    by (simp_all add: example_ambiguous_evaluated)
       (simp_all add: example_a_def example_b_ambiguous_def)
  have kl: "0 < length (spec_evaluated example_a example_b_low)"
    "2 = spec_evaluated example_a example_b_low ! 0"
    "5 = nat (int 2 + (Pos example_b_low - Pos example_a))"
    by (simp_all add: example_low_evaluated)
       (simp_all add: example_a_def example_b_low_def)
  have v: "Seq example_a ! 5 = CHR ''A''" "Seq example_b ! 2 = CHR ''G''"
    "Seq example_a ! 3 = CHR ''A''" "Seq example_a ! 4 = CHR ''A''"
    "Seq example_b ! 0 = CHR ''A''" "Seq example_b ! Suc 0 = CHR ''A''"
    "Seq example_a ! 11 = CHR ''G''" "Seq example_b ! 8 = CHR ''G''"
    "Seq example_a ! 9 = CHR ''G''" "Seq example_a ! 10 = CHR ''G''"
    "Seq example_b ! 6 = CHR ''G''" "Seq example_b ! 7 = CHR ''G''"
    "uint (Qual example_a ! 5) = 40" "uint (Qual example_b ! 2) = 40"
    "uint (Qual example_a ! 11) = 40" "uint (Qual example_b ! 8) = 40"
    by (simp_all add: example_a_def example_b_def)
  have vu: "Seq example_b_unknown ! 2 = CHR ''G''"
    "Seq example_b_unknown ! 0 = CHR ''A''" "Seq example_b_unknown ! Suc 0 = CHR ''N''"
    "uint (Qual example_b_unknown ! 2) = 40"
    by (simp_all add: example_b_unknown_def)
  have va: "Seq example_b_ambiguous ! 2 = CHR ''N''"
    by (simp add: example_b_ambiguous_def)
  have vl: "Seq example_b_low ! 2 = CHR ''G''" "uint (Qual example_b_low ! 2) = 13"
    by (simp_all add: example_b_low_def)
  have t: "example_table ''AAA'' = Some (CHR ''K'')" "example_table ''AAG'' = Some (CHR ''K'')"
    "example_table ''GGG'' = Some (CHR ''G'')" "example_table ''ANG'' = None"
    by (simp_all add: example_table_def)
  from compareMappedReads_observation [OF example_hyps k(1,2,3), of 13 example_table]
  obtain p where p: "compareMappedReads 13 example_a example_b example_table = Inr p"
    "Profile p ! 0 = Num 1"
    by (auto simp add: v t)
  from compareMappedReads_observation [OF example_hyps k(4,5,6), of 13 example_table] p(1)
  have "Profile p ! 2 = Num 0"
    by (auto simp add: v t)
  with p have one: "\<exists>p. compareMappedReads 13 example_a example_b example_table = Inr p
        \<and> Profile p ! 0 = Num 1 \<and> Profile p ! 2 = Num 0"
    by blast
  from compareMappedReads_observation [OF example_unknown_hyps ku, of 13 example_table]
  have two: "\<exists>p. compareMappedReads 13 example_a example_b_unknown example_table = Inr p
        \<and> Profile p ! 0 = NaN"
    by (auto simp add: v vu t)
  from compareMappedReads_observation [OF example_ambiguous_hyps ka, of 13 example_table]
  have three: "\<exists>p. compareMappedReads 13 example_a example_b_ambiguous example_table = Inr p
        \<and> Profile p ! 0 = NaN"
    by (auto simp add: v va)
  from compareMappedReads_observation [OF example_low_hyps kl, of 13 example_table]
  have four: "\<exists>p. compareMappedReads 13 example_a example_b_low example_table = Inr p
        \<and> Profile p ! 0 = NaN"
    by (auto simp add: v vl)
  from one two three four show ?thesis by blast
qed

subsection \<open>Codons that are not in the table\<close>

text \<open>
  Claim C3 as the specification states it fails: the codon \<open>NNA\<close> is not in the table, in
  either read, and the observation at its third base is 0, not missing.
\<close>

theorem absent_codon_counterexample:
  "example_table (codonAt (Seq example_n) 2) = None
   \<and> compareMappedReads 13 example_n example_n example_table
       = Inr \<lparr>SubPos = 0, Profile = [Num 0]\<rparr>"
  by (simp add: cmr_eval codonAt_def example_n_def example_table_def)

text \<open>
  Claim C3, as the code has it. A codon that is not in the table raises no error: the
  lookup gives the zero byte. For reads as in C4 (\<open>lag \<ge> 0\<close>, no wrap-around, equal lengths
  of bases and qualities) and an evaluated position: if the codon of exactly one read is
  absent and the codon of the other read has a non-zero amino acid, the observation is
  missing. If the codons of both reads are absent the two lookups agree, and the
  observation is 0 or 1 as soon as the bases are canonical and the qualities are above the
  minimum.
\<close>

theorem absent_codon_observation:
  assumes "Pos a \<le> Pos b" and "no_overflow a b"
    and "length (Qual a) = length (Seq a)" and "length (Qual b) = length (Seq b)"
    and "k < length (spec_evaluated a b)"
    and "j = spec_evaluated a b ! k" and "i = nat (int j + (Pos b - Pos a))"
    and "codonA = codonAt (Seq a) i" and "codonB = codonAt (Seq b) j"
  shows "\<exists>p. compareMappedReads MINBQ a b codeTable = Inr p
           \<and> ((codeTable codonA = None \<and> (\<exists>aa. codeTable codonB = Some aa \<and> aa \<noteq> CHR 0x00)
                \<or> codeTable codonB = None \<and> (\<exists>aa. codeTable codonA = Some aa \<and> aa \<noteq> CHR 0x00))
               \<longrightarrow> Profile p ! k = NaN)
           \<and> (codeTable codonA = None \<and> codeTable codonB = None
               \<longrightarrow> Profile p ! k =
                     (if (Seq a ! i \<in> {CHR ''A'', CHR ''T'', CHR ''G'', CHR ''C''}
                          \<and> Seq b ! j \<in> {CHR ''A'', CHR ''T'', CHR ''G'', CHR ''C''})
                         \<and> (MINBQ < uint (Qual a ! i) \<and> MINBQ < uint (Qual b ! j))
                      then (if Seq a ! i \<noteq> Seq b ! j then Num 1 else Num 0)
                      else NaN))"
  using assms compareMappedReads_in_bounds [OF assms(1-4), of MINBQ codeTable]
  by (auto simp add: spec_observation_def Let_def simp del: insert_iff)

theorem absent_codon_observation_witness:
  "(\<exists>p. compareMappedReads 13 example_a example_b_unknown example_table = Inr p
        \<and> example_table ''ANG'' = None \<and> example_table ''AAA'' = Some (CHR ''K'')
        \<and> Profile p ! 0 = NaN)
   \<and> (\<exists>p. compareMappedReads 13 example_n example_n example_table = Inr p
        \<and> example_table ''NNA'' = None
        \<and> Profile p ! 0 = Num 0)"
proof -
  have t: "example_table ''ANG'' = None" "example_table ''AAA'' = Some (CHR ''K'')"
    "example_table ''NNA'' = None"
    by (simp_all add: example_table_def)
  have one: "0 < length (spec_evaluated example_a example_b_unknown)"
    "2 = spec_evaluated example_a example_b_unknown ! 0"
    "5 = nat (int 2 + (Pos example_b_unknown - Pos example_a))"
    "''AAA'' = codonAt (Seq example_a) 5" "''ANG'' = codonAt (Seq example_b_unknown) 2"
    by (simp_all add: example_unknown_evaluated)
       (simp_all add: codonAt_def example_a_def example_b_unknown_def)
  have both: "0 < length (spec_evaluated example_n example_n)"
    "2 = spec_evaluated example_n example_n ! 0"
    "2 = nat (int 2 + (Pos example_n - Pos example_n))"
    "''NNA'' = codonAt (Seq example_n) 2"
    by (simp_all add: example_n_evaluated) (simp_all add: codonAt_def example_n_def)
  have n: "Seq example_n ! 2 = CHR ''A''" "13 < uint (Qual example_n ! 2)"
    by (simp_all add: example_n_def)
  from absent_codon_observation [OF example_unknown_hyps one(1,2,3,4,5), of 13 example_table]
  have "\<exists>p. compareMappedReads 13 example_a example_b_unknown example_table = Inr p
        \<and> Profile p ! 0 = NaN"
    using t by auto
  moreover
  from absent_codon_observation [OF example_n_hyps example_n_hyps(3) both(1,2,3,4,4),
      of 13 example_table]
  have "\<exists>p. compareMappedReads 13 example_n example_n example_table = Inr p
        \<and> Profile p ! 0 = Num 0"
    using t n by auto
  ultimately show ?thesis using t by simp
qed

subsection \<open>Bounds of the codon comparison\<close>




subsection \<open>Projection of a record\<close>

lemma slice_in_read:
  assumes "p + n \<le> length xs" and "length xs < 2 ^ 63"
  shows "slice xs spare (int64 (int p)) (int64 (int64 (int p) + int n)) = Inr (take n (drop p xs))"
proof -
  from assms have "int64 (int p) = int p" "int64 (int p + int n) = int p + int n"
    by (simp_all add: int64_id)
  with assms show ?thesis by (simp add: slice_def)
qed

lemma map2RefLoop_in_read:
  assumes "length read < 2 ^ 63" and "length qual < 2 ^ 63"
    and "in_read (length read) cigar p" and "in_read (length qual) cigar p"
  shows "map2RefLoop read readSpare qual qualSpare cigar (int64 (int p)) s q
           = Inr (s @ spec_emit (CHR ''*'') read cigar p, q @ spec_emit 0 qual cigar p)"
  using assms(3,4)
proof (induction cigar arbitrary: p s q)
  case Nil
  show ?case by simp
next
  case (Cons c cigar)
  have next_p: "int64 (int64 (int p) + int (CigarLen c)) = int64 (int (p + CigarLen c))"
    by (simp add: int64_add_left)
  show ?case
  proof (cases "CigarType c \<in> {CigarMatch, CigarMismatch, CigarEqual}")
    case True
    with Cons.prems have fit: "p + CigarLen c \<le> length read" "p + CigarLen c \<le> length qual"
      and rest: "in_read (length read) cigar (p + CigarLen c)"
        "in_read (length qual) cigar (p + CigarLen c)"
      by (simp_all del: insert_iff)
    from fit assms(1,2) have
      "slice read readSpare (int64 (int p)) (int64 (int64 (int p) + int (CigarLen c)))
         = Inr (take (CigarLen c) (drop p read))"
      "slice qual qualSpare (int64 (int p)) (int64 (int64 (int p) + int (CigarLen c)))
         = Inr (take (CigarLen c) (drop p qual))"
      by (simp_all add: slice_in_read)
    with True Cons.IH [OF rest] show ?thesis
      by (simp add: next_p del: insert_iff)
  next
    case False
    show ?thesis
    proof (cases "CigarType c \<in> {CigarInsertion, CigarSoftClipped, CigarHardClipped}")
      case True
      with False Cons.prems have rest: "in_read (length read) cigar (p + CigarLen c)"
        "in_read (length qual) cigar (p + CigarLen c)"
        by (simp_all del: insert_iff)
      with False True Cons.IH [OF rest] show ?thesis
        by (simp add: next_p del: insert_iff)
    next
      case other: False
      with False Cons.prems have rest: "in_read (length read) cigar p"
        "in_read (length qual) cigar p"
        by (simp_all del: insert_iff)
      with False other Cons.IH [OF rest] show ?thesis
        by (simp del: insert_iff)
    qed
  qed
qed

lemma spec_emit_length:
  "in_read (length xs) cigar p \<Longrightarrow> in_read (length ys) cigar p
     \<Longrightarrow> length (spec_emit u xs cigar p) = length (spec_emit v ys cigar p)"
proof (induction cigar arbitrary: p)
  case Nil
  show ?case by simp
next
  case (Cons c cigar)
  show ?case
  proof (cases "CigarType c \<in> {CigarMatch, CigarMismatch, CigarEqual}")
    case True
    with Cons.prems have "p + CigarLen c \<le> length xs" "p + CigarLen c \<le> length ys"
      "in_read (length xs) cigar (p + CigarLen c)" "in_read (length ys) cigar (p + CigarLen c)"
      by (simp_all del: insert_iff)
    with True Cons.IH [of "p + CigarLen c"] show ?thesis
      by (simp del: insert_iff)
  next
    case False
    with Cons.prems Cons.IH [of "p + CigarLen c"] Cons.IH [of p] show ?thesis
      by (simp del: insert_iff split: if_splits)
  qed
qed

lemma toUpperByte_not_lower: "\<not> lower (toUpperByte c)"
  by (auto simp: toUpperByte_def lower_def)

text \<open>
  Claim C7 as the specification states it fails: on a five-base read with the operations
  hard clip 3, match 5 the projection does not return; it panics on the slice
  \<^verbatim>\<open>read[3:8]\<close>.
\<close>

theorem Map2Ref_hard_clip_counterexample:
  "Map2Ref hard_clipped = Inl SliceBoundsOutOfRange"
  by (simp add: Map2Ref_def hard_clipped_def slice_def int64_def)

text \<open>
  Claim C7, as the code has it. Take a record with ASCII read bases (and fewer than
  \<open>2^63\<close> bases and qualities, as in every Go slice). If every stretch copied by a match,
  mismatch or equal operation lies within the read and within the qualities, insertions
  and soft and hard clips being counted as consumed read bases, the projection returns:
  the bases are the upper-case image of what \<open>spec_emit\<close> gives for the read with
  placeholder \<open>*\<close>, the qualities are what it gives for the qualities with placeholder 0,
  no base is a lower-case letter, and there are as many bases as qualities. Nothing is
  said about other records.
\<close>

theorem Map2Ref_projection:
  assumes "\<forall>c \<in> set (RecSeq r). ascii c"
    and "length (RecSeq r) < 2 ^ 63" and "length (RecQual r) < 2 ^ 63"
    and "in_read (length (RecSeq r)) (Cigar r) 0"
    and "in_read (length (RecQual r)) (Cigar r) 0"
  shows "\<exists>s q. Map2Ref r = Inr (s, q)
           \<and> s = ToUpper (spec_emit (CHR ''*'') (RecSeq r) (Cigar r) 0)
           \<and> q = spec_emit 0 (RecQual r) (Cigar r) 0
           \<and> (\<forall>c \<in> set s. \<not> lower c)
           \<and> length s = length q"
proof -
  have up: "\<forall>c \<in> set (ToUpper s). \<not> lower c" for s
    by (simp add: ToUpper_def toUpperByte_not_lower)
  have len: "length (ToUpper s) = length s" for s
    by (simp add: ToUpper_def)
  have zero: "int64 0 = 0"
    by (simp add: int64_def)
  from map2RefLoop_in_read [OF assms(2,3,4,5), of "RecSeqSpare r" "RecQualSpare r" "[]" "[]"]
  have "map2RefLoop (RecSeq r) (RecSeqSpare r) (RecQual r) (RecQualSpare r) (Cigar r) 0 [] []
          = Inr (spec_emit (CHR ''*'') (RecSeq r) (Cigar r) 0, spec_emit 0 (RecQual r) (Cigar r) 0)"
    by (simp add: zero)
  then show ?thesis
    using up spec_emit_length [OF assms(4,5), of "CHR ''*''" 0]
    by (simp add: Map2Ref_def len)
qed

text \<open>A record outside \<open>in_read\<close> need not panic: a slice expression may reach beyond the
  length, up to the capacity.\<close>

lemma Map2Ref_reaches_capacity:
  "\<not> in_read (length (RecQual short_quality)) (Cigar short_quality) 0
   \<and> Map2Ref short_quality = Inr (''ACGT'', [30, 31, 32, 33])"
  by (simp add: Map2Ref_def short_quality_def slice_def ToUpper_def toUpperByte_def lower_def
        int64_def)

lemma example_record_projection:
  "Map2Ref example_record = Inr (''CGA**CGT'', [31, 32, 34, 0, 0, 35, 36, 37])"
  by (simp add: Map2Ref_def example_record_def slice_def ToUpper_def toUpperByte_def lower_def
        numeral_2_eq_2 int64_def)

theorem Map2Ref_projection_witness:
  "in_read (length (RecSeq example_record)) (Cigar example_record) 0
   \<and> in_read (length (RecQual example_record)) (Cigar example_record) 0
   \<and> Map2Ref example_record = Inr (''CGA**CGT'', [31, 32, 34, 0, 0, 35, 36, 37])"
proof -
  have a: "\<forall>c \<in> set (RecSeq example_record). ascii c"
    by (simp add: example_record_def ascii_def)
  have l: "length (RecSeq example_record) < 2 ^ 63" "length (RecQual example_record) < 2 ^ 63"
    by (simp_all add: example_record_def)
  have i: "in_read (length (RecSeq example_record)) (Cigar example_record) 0"
    "in_read (length (RecQual example_record)) (Cigar example_record) 0"
    by (simp_all add: example_record_def)
  have e: "ToUpper (spec_emit (CHR ''*'') (RecSeq example_record) (Cigar example_record) 0)
             = ''CGA**CGT''"
    "spec_emit 0 (RecQual example_record) (Cigar example_record) 0
             = [31, 32, 34, 0, 0, 35, 36, 37]"
    by (simp_all add: example_record_def ToUpper_def toUpperByte_def lower_def numeral_2_eq_2)
  from Map2Ref_projection [OF a l i] e
  have "Map2Ref example_record = Inr (''CGA**CGT'', [31, 32, 34, 0, 0, 35, 36, 37])"
    by auto
  then show ?thesis using i by simp
qed

subsection \<open>The sliding window\<close>

text \<open>
  Claim C2 on records that pass the mapping-quality filter and project to the reads
  \<open>example_a\<close> to \<open>example_d\<close>. A window is sent only when a later read starts beyond
  the end of its head, and the reads still in the window when the records end are never
  sent. For the two overlapping reads \<open>a\<close>, \<open>b\<close> alone \<^verbatim>\<open>slideReads\<close> sends nothing, so
  the pair is not compared. For the four reads it sends one window, with head \<open>a\<close>:
  \<^verbatim>\<open>compare\<close> yields the profiles of \<open>(a, b)\<close> and \<open>(a, c)\<close>, and none for the
  overlapping pair \<open>(b, c)\<close>.
\<close>

theorem slideReads_drops_unsent_reads:
  "slideReads 30 [record_a, record_b] = Inr []
   \<and> Map2Ref record_a = Inr (Seq example_a, Qual example_a)
   \<and> Map2Ref record_b = Inr (Seq example_b, Qual example_b)
   \<and> Pos example_a \<le> Pos example_b \<and> Pos example_b \<le> Pos example_a + Len example_a
   \<and> slideReads 30 [record_a, record_b, record_c, record_d]
       = Inr [[example_a, example_b, example_c, example_d]]
   \<and> compare 13 [[example_a, example_b, example_c, example_d]] example_table
       = Inr [\<lparr>SubPos = 3, Profile = [Num 1, Num 1, Num 0]\<rparr>,
              \<lparr>SubPos = 6, Profile = [Num 0, Num 0]\<rparr>]
   \<and> Pos example_b \<le> Pos example_c \<and> Pos example_c \<le> Pos example_b + Len example_b"
proof -
  have two: "slideReads 30 [record_a, record_b] = Inr []"
    "Map2Ref record_a = Inr (Seq example_a, Qual example_a)"
    "Map2Ref record_b = Inr (Seq example_b, Qual example_b)"
    by (simp_all add: Map2Ref_def slideReads_def record_a_def record_b_def example_a_def
          example_b_def slice_def ToUpper_def toUpperByte_def lower_def Len_def int64_def)
  have four: "slideReads 30 [record_a, record_b, record_c, record_d]
       = Inr [[example_a, example_b, example_c, example_d]]"
    by (simp add: Map2Ref_def slideReads_def record_a_def record_b_def record_c_def record_d_def
          example_a_def example_b_def example_c_def example_d_def slice_def ToUpper_def
          toUpperByte_def lower_def Len_def int64_def)
  have cmp: "compare 13 [[example_a, example_b, example_c, example_d]] example_table
       = Inr [\<lparr>SubPos = 3, Profile = [Num 1, Num 1, Num 0]\<rparr>,
              \<lparr>SubPos = 6, Profile = [Num 0, Num 0]\<rparr>]"
    by (simp add: cmr_eval example_a_def example_b_def example_c_def example_d_def
          example_table_def)
  have pos: "Pos example_a \<le> Pos example_b" "Pos example_b \<le> Pos example_a + Len example_a"
    "Pos example_b \<le> Pos example_c" "Pos example_c \<le> Pos example_b + Len example_b"
    by (simp_all add: example_a_def example_b_def example_c_def Len_def)
  from two four cmp pos show ?thesis by simp
qed

subsection \<open>Lag buckets\<close>

text \<open>\<^verbatim>\<open>calc\<close> returns one accumulator for each lag below \<open>maxl\<close>.\<close>

lemma calcInner_length: "length (calcInner subProfile pos1 x j covs) = length covs"
proof (induction "length (Profile subProfile) - j" arbitrary: j covs)
  case 0
  then show ?case by (subst calcInner.simps) simp
next
  case (Suc n)
  from Suc.hyps(2) have "length (Profile subProfile) - Suc j = n" by simp
  from Suc.hyps(1) [OF this [symmetric]] show ?case
    by (subst calcInner.simps) (simp add: Let_def)
qed

lemma calcOuter_length: "length (calcOuter subProfile i covs) = length covs"
proof (induction "length (Profile subProfile) - i" arbitrary: i covs)
  case 0
  then show ?case by (subst calcOuter.simps) simp
next
  case (Suc n)
  from Suc.hyps(2) have "length (Profile subProfile) - Suc i = n" by simp
  from Suc.hyps(1) [OF this [symmetric]] show ?case
    by (subst calcOuter.simps) (simp add: Let_def calcInner_length)
qed

lemma calc_length: "length (calc subProfileChan maxl) = nat maxl"
proof -
  have "length (fold (\<lambda>subProfile covs. calcOuter subProfile 0 covs) subProfileChan covs)
          = length covs" for covs
    by (induction subProfileChan arbitrary: covs) (simp_all add: calcOuter_length)
  then show ?thesis by (simp add: calc_def)
qed

text \<open>What \<^verbatim>\<open>calc\<close> puts into bucket \<open>l\<close>: from each profile (of fewer than \<open>2^63\<close> entries,
  as every Go slice), the pairs of entries that are not NaN and whose indices in the
  profile differ by \<open>l\<close>. The positions \<open>pos1\<close> and \<open>pos2\<close> may have wrapped around; their
  difference is \<open>j - i\<close> all the same.\<close>

lemma calcInner_buckets:
  assumes "pos1 = int64 (SubPos subProfile + int i)" and "i \<le> j"
    and "length (Profile subProfile) < 2 ^ 63"
  shows "length (calcInner subProfile pos1 x j covs) = length covs
         \<and> (\<forall>l < length covs. calcInner subProfile pos1 x j covs ! l = covs ! l @
               (if j - i \<le> l \<and> i + l < length (Profile subProfile)
                     \<and> \<not> IsNaN (Profile subProfile ! (i + l))
                then [(x, Profile subProfile ! (i + l))] else []))"
  using assms
proof (induction "length (Profile subProfile) - j" arbitrary: j covs)
  case 0
  then show ?case by (subst (1 2) calcInner.simps) auto
next
  case (Suc n)
  note prems = \<open>pos1 = int64 (SubPos subProfile + int i)\<close> \<open>i \<le> j\<close>
    \<open>length (Profile subProfile) < 2 ^ 63\<close>
  let ?P = "Profile subProfile"
  show ?case
  proof (cases "j < length ?P")
    case False
    then show ?thesis using Suc.hyps by simp
  next
    case inside: True
    have "int64 (int64 (SubPos subProfile + int j) - pos1) = int64 (int j - int i)"
      unfolding prems(1) int64_diff by simp
    also have "\<dots> = int j - int i"
      using inside prems(2,3) by (intro int64_id) simp_all
    finally have diff: "int64 (int64 (SubPos subProfile + int j) - pos1) = int j - int i" .
    show ?thesis
    proof (cases "int (length covs) \<le> int j - int i")
      case True
      then show ?thesis using inside prems(2)
        by (subst (1 2) calcInner.simps) (auto simp: Let_def diff)
    next
      case room: False
      then have l: "j - i < length covs" "nat (int j - int i) = j - i"
        using prems(2) by auto
      show ?thesis
      proof (cases "IsNaN (?P ! j)")
        case True
        have ih: "length (calcInner subProfile pos1 x (Suc j) covs) = length covs
         \<and> (\<forall>l < length covs. calcInner subProfile pos1 x (Suc j) covs ! l = covs ! l @
               (if Suc j - i \<le> l \<and> i + l < length ?P \<and> \<not> IsNaN (?P ! (i + l))
                then [(x, ?P ! (i + l))] else []))"
          using inside Suc.hyps(2) prems by (intro Suc.hyps(1)) auto
        have same: "(Suc j - i \<le> l \<and> i + l < length ?P \<and> \<not> IsNaN (?P ! (i + l)))
            = (j - i \<le> l \<and> i + l < length ?P \<and> \<not> IsNaN (?P ! (i + l)))" for l
        proof (cases "l = j - i")
          case True
          then have "i + l = j" using prems by simp
          then show ?thesis using \<open>IsNaN (?P ! j)\<close> by simp
        next
          case False
          then show ?thesis using prems by auto
        qed
        show ?thesis using inside room True ih
          by (subst (1 2) calcInner.simps) (simp add: Let_def same diff)
      next
        case False
        let ?covs = "covs[j - i := covs ! (j - i) @ [(x, ?P ! j)]]"
        have ih: "length (calcInner subProfile pos1 x (Suc j) ?covs) = length ?covs
         \<and> (\<forall>l < length ?covs. calcInner subProfile pos1 x (Suc j) ?covs ! l = ?covs ! l @
               (if Suc j - i \<le> l \<and> i + l < length ?P \<and> \<not> IsNaN (?P ! (i + l))
                then [(x, ?P ! (i + l))] else []))"
          using inside Suc.hyps(2) prems by (intro Suc.hyps(1)) auto
        have step: "calcInner subProfile pos1 x j covs = calcInner subProfile pos1 x (Suc j) ?covs"
          using inside room False l
          by (subst calcInner.simps) (simp add: Let_def diff)
        have "?covs ! l' @ (if Suc j - i \<le> l' \<and> i + l' < length ?P \<and> \<not> IsNaN (?P ! (i + l'))
                then [(x, ?P ! (i + l'))] else [])
            = covs ! l' @ (if j - i \<le> l' \<and> i + l' < length ?P \<and> \<not> IsNaN (?P ! (i + l'))
                then [(x, ?P ! (i + l'))] else [])" if "l' < length covs" for l'
        proof (cases "l' = j - i")
          case True
          then have "i + l' = j" using prems by simp
          then show ?thesis using True False inside that by simp
        next
          case False
          then show ?thesis using prems that by auto
        qed
        with ih show ?thesis unfolding step by simp
      qed
    qed
  qed
qed

lemma calcOuter_buckets:
  assumes "length (Profile subProfile) < 2 ^ 63"
  shows "length (calcOuter subProfile i covs) = length covs
   \<and> (\<forall>l < length covs. calcOuter subProfile i covs ! l = covs ! l @
         concat (map (pairs_at_distance (Profile subProfile) l) [i..<length (Profile subProfile)]))"
proof (induction "length (Profile subProfile) - i" arbitrary: i covs)
  case 0
  then show ?case by (subst (1 2) calcOuter.simps) auto
next
  case (Suc n)
  let ?P = "Profile subProfile"
  from Suc.hyps(2) have inside: "i < length ?P" by simp
  then have up: "[i..<length ?P] = i # [Suc i..<length ?P]" by (simp add: upt_conv_Cons)
  show ?case
  proof (cases "IsNaN (?P ! i)")
    case True
    have step: "calcOuter subProfile i covs = calcOuter subProfile (Suc i) covs"
      using inside True by (subst calcOuter.simps) (simp add: Let_def)
    have "length (calcOuter subProfile (Suc i) covs) = length covs
      \<and> (\<forall>l < length covs. calcOuter subProfile (Suc i) covs ! l = covs ! l @
         concat (map (pairs_at_distance ?P l) [Suc i..<length ?P]))"
      using Suc.hyps(2) by (intro Suc.hyps(1)) simp
    then show ?thesis unfolding step up using True by (simp add: pairs_at_distance_def)
  next
    case False
    let ?covs = "calcInner subProfile (int64 (SubPos subProfile + int i)) (?P ! i) i covs"
    have step: "calcOuter subProfile i covs = calcOuter subProfile (Suc i) ?covs"
      using inside False by (subst calcOuter.simps) (simp add: Let_def)
    have inner: "length ?covs = length covs"
      "\<And>l. l < length covs \<Longrightarrow> ?covs ! l = covs ! l @ pairs_at_distance ?P l i"
      using calcInner_buckets [of "int64 (SubPos subProfile + int i)" subProfile i i "?P ! i" covs]
        False assms
      by (simp_all add: pairs_at_distance_def)
    have "length (calcOuter subProfile (Suc i) ?covs) = length ?covs
      \<and> (\<forall>l < length ?covs. calcOuter subProfile (Suc i) ?covs ! l = ?covs ! l @
         concat (map (pairs_at_distance ?P l) [Suc i..<length ?P]))"
      using Suc.hyps(2) by (intro Suc.hyps(1)) simp
    then show ?thesis unfolding step up using inner by simp
  qed
qed

lemma fold_calcOuter_buckets:
  assumes "\<forall>subProfile \<in> set subProfileChan. length (Profile subProfile) < 2 ^ 63"
  shows "length (fold (\<lambda>subProfile covs. calcOuter subProfile 0 covs) subProfileChan covs) = length covs
   \<and> (\<forall>l < length covs.
         fold (\<lambda>subProfile covs. calcOuter subProfile 0 covs) subProfileChan covs ! l = covs ! l @
         concat (map (\<lambda>subProfile. concat (map (pairs_at_distance (Profile subProfile) l)
                          [0..<length (Profile subProfile)])) subProfileChan))"
  using assms
proof (induction subProfileChan arbitrary: covs)
  case Nil
  show ?case by simp
next
  case (Cons subProfile subProfileChan)
  from Cons.prems have "length (Profile subProfile) < 2 ^ 63"
    and rest: "\<forall>subProfile \<in> set subProfileChan. length (Profile subProfile) < 2 ^ 63"
    by simp_all
  from calcOuter_buckets [OF this(1), of 0 covs] Cons.IH [OF rest, of "calcOuter subProfile 0 covs"]
  show ?case by simp
qed

lemma calc_buckets:
  assumes "\<forall>subProfile \<in> set subProfileChan. length (Profile subProfile) < 2 ^ 63"
  shows "length (calc subProfileChan maxl) = nat maxl
   \<and> (\<forall>l < nat maxl. calc subProfileChan maxl ! l =
         concat (map (\<lambda>subProfile. concat (map (pairs_at_distance (Profile subProfile) l)
                          [0..<length (Profile subProfile)])) subProfileChan))"
  using fold_calcOuter_buckets [OF assms, of "replicate (nat maxl) []"]
  by (simp add: calc_def)

lemmas calc_eval = calc_def calcOuter.simps calcInner.simps int64_def

text \<open>
  Claim C1 on the profile of \<open>example_a\<close> and \<open>example_b\<close>. Its three entries belong to
  the reference positions 5, 8 and 11. \<^verbatim>\<open>calc\<close> with four buckets puts the pairs of
  neighbouring entries, three reference positions apart, into bucket 1 and the pair of the
  first and the last entry, six positions apart, into bucket 2; bucket 3 stays empty.
\<close>

theorem calc_bucket_is_index_distance:
  "compareMappedReads 13 example_a example_b example_table
     = Inr \<lparr>SubPos = 3, Profile = [Num 1, Num 1, Num 0]\<rparr>
   \<and> map (\<lambda>j. int j + Pos example_b) (spec_evaluated example_a example_b) = [5, 8, 11]
   \<and> calc [\<lparr>SubPos = 3, Profile = [Num 1, Num 1, Num 0]\<rparr>] 4
       = [[(Num 1, Num 1), (Num 1, Num 1), (Num 0, Num 0)],
          [(Num 1, Num 1), (Num 1, Num 0)],
          [(Num 1, Num 0)],
          []]"
proof -
  have "compareMappedReads 13 example_a example_b example_table
     = Inr \<lparr>SubPos = 3, Profile = [Num 1, Num 1, Num 0]\<rparr>"
    by (simp add: cmr_eval example_a_def example_b_def example_table_def)
  moreover have "map (\<lambda>j. int j + Pos example_b) (spec_evaluated example_a example_b) = [5, 8, 11]"
    by (simp add: example_evaluated) (simp add: example_b_def)
  moreover have "calc [\<lparr>SubPos = 3, Profile = [Num 1, Num 1, Num 0]\<rparr>] 4
       = [[(Num 1, Num 1), (Num 1, Num 1), (Num 0, Num 0)],
          [(Num 1, Num 1), (Num 1, Num 0)],
          [(Num 1, Num 0)],
          []]"
    by (simp add: calc_eval eval_nat_numeral Let_def)
  ultimately show ?thesis by simp
qed

subsection \<open>Aggregation across batches\<close>

lemma collectCovs_Inr:
  "collectCovs st covs i meanVars = Inr meanVars' \<Longrightarrow>
     length meanVars' = length meanVars
     \<and> (\<forall>k < length meanVars. meanVars' ! k = meanVars ! k @
           (if i \<le> k \<and> k - i < length covs \<and> \<not> IsNaN (CovGetResult st (covs ! (k - i)))
            then [CovGetResult st (covs ! (k - i))] else []))"
proof (induction covs arbitrary: i meanVars)
  case Nil
  then show ?case by simp
next
  case (Cons c covs)
  show ?case
  proof (cases "IsNaN (CovGetResult st c)")
    case True
    with Cons.prems have "collectCovs st covs (Suc i) meanVars = Inr meanVars'"
      by simp
    from Cons.IH [OF this] True show ?thesis
      by (auto simp: nth_Cons' Suc_diff_le less_Suc_eq_le split: if_splits)
  next
    case False
    with Cons.prems have i: "i < length meanVars"
      and r: "collectCovs st covs (Suc i)
                (meanVars[i := meanVars ! i @ [CovGetResult st c]]) = Inr meanVars'"
      by (auto simp: index_def Let_def split: if_splits)
    from Cons.IH [OF r] have len: "length meanVars' = length meanVars"
      and ih: "\<And>k. k < length meanVars \<Longrightarrow>
           meanVars' ! k = (meanVars[i := meanVars ! i @ [CovGetResult st c]]) ! k @
           (if Suc i \<le> k \<and> k - Suc i < length covs
                 \<and> \<not> IsNaN (CovGetResult st (covs ! (k - Suc i)))
            then [CovGetResult st (covs ! (k - Suc i))] else [])"
      by auto
    show ?thesis
    proof (intro conjI allI impI)
      show "length meanVars' = length meanVars" by (rule len)
    next
      fix k assume k: "k < length meanVars"
      consider "k < i" | "k = i" | "i < k" by linarith
      then show "meanVars' ! k = meanVars ! k @
           (if i \<le> k \<and> k - i < length (c # covs)
                 \<and> \<not> IsNaN (CovGetResult st ((c # covs) ! (k - i)))
            then [CovGetResult st ((c # covs) ! (k - i))] else [])"
      proof cases
        case 1
        then show ?thesis using ih [OF k] by simp
      next
        case 2
        then show ?thesis using ih [OF k] k False by simp
      next
        case 3
        then have "k - i = Suc (k - Suc i)" by simp
        then show ?thesis using ih [OF k] 3 by simp
      qed
    qed
  qed
qed

lemma collectCovs_total:
  "i + length covs \<le> length meanVars \<Longrightarrow> \<exists>meanVars'. collectCovs st covs i meanVars = Inr meanVars'"
  by (induction covs arbitrary: i meanVars) (auto simp: index_def Let_def)

lemma collectLoop_Inr:
  "collectLoop st covsChan meanVars = Inr meanVars' \<Longrightarrow>
     length meanVars' = length meanVars
     \<and> (\<forall>k < length meanVars. meanVars' ! k = meanVars ! k @
           filter (\<lambda>v. \<not> IsNaN v)
             (map (\<lambda>covs. CovGetResult st (covs ! k)) (filter (\<lambda>covs. k < length covs) covsChan)))"
proof (induction covsChan arbitrary: meanVars)
  case Nil
  then show ?case by simp
next
  case (Cons covs covsChan)
  from Cons.prems obtain mid where m: "collectCovs st covs 0 meanVars = Inr mid"
    and r: "collectLoop st covsChan mid = Inr meanVars'"
    by (auto split: sum.splits)
  from collectCovs_Inr [OF m] Cons.IH [OF r] show ?case
    by auto
qed

lemma collectLoop_total:
  "\<forall>covs \<in> set covsChan. length covs \<le> length meanVars
     \<Longrightarrow> \<exists>meanVars'. collectLoop st covsChan meanVars = Inr meanVars'"
proof (induction covsChan arbitrary: meanVars)
  case Nil
  then show ?case by simp
next
  case (Cons covs covsChan)
  then obtain mid where m: "collectCovs st covs 0 meanVars = Inr mid"
    using collectCovs_total [of 0 covs meanVars st] by auto
  with collectCovs_Inr [OF m] Cons show ?case by simp
qed

lemma example_collect: "collect example_stats example_covs 2 = Inr [[Num 1, Num 2], [Num 1]]"
  by (simp add: collect_def example_covs_def example_stats_def index_def numeral_2_eq_2 Let_def)

text \<open>
  Claim C8. When every batch result has one covariance per lag bucket (as \<^verbatim>\<open>calc\<close>
  returns it, lemma \<open>calc_length\<close>), \<^verbatim>\<open>collect\<close> returns, and the accumulator of each lag has received exactly the results for that lag
  that are not NaN, one \<^verbatim>\<open>Increment\<close> for each, in the order of delivery; a NaN result is
  never passed on.
\<close>

theorem collect_excludes_NaN:
  assumes "\<forall>covs \<in> set covsChan. length covs = nat maxl"
  shows "\<exists>meanVars. collect st covsChan maxl = Inr meanVars
           \<and> length meanVars = nat maxl
           \<and> (\<forall>lag < nat maxl. meanVars ! lag =
                 filter (\<lambda>v. \<not> IsNaN v) (map (\<lambda>covs. CovGetResult st (covs ! lag)) covsChan))"
proof -
  from assms obtain meanVars where m: "collect st covsChan maxl = Inr meanVars"
    using collectLoop_total [of covsChan "replicate (nat maxl) []" st]
    by (auto simp: collect_def)
  have "filter (\<lambda>covs. lag < length covs) covsChan = covsChan" if "lag < nat maxl" for lag
    using assms that by (simp add: filter_id_conv)
  with collectLoop_Inr [OF m [unfolded collect_def]] m show ?thesis
    by simp
qed

theorem collect_excludes_NaN_witness:
  "collect example_stats example_covs 2 = Inr [[Num 1, Num 2], [Num 1]]
   \<and> CovGetResult example_stats (example_covs ! 0 ! 1) = NaN
   \<and> CovGetResult example_stats (example_covs ! 1 ! 1) = Num 1"
proof -
  have h: "\<forall>covs \<in> set example_covs. length covs = nat 2"
    by (simp add: example_covs_def)
  from collect_excludes_NaN [OF h, of example_stats]
  obtain meanVars where m: "collect example_stats example_covs 2 = Inr meanVars"
    and l: "length meanVars = 2"
    and v: "\<forall>lag < 2. meanVars ! lag =
                 filter (\<lambda>v. \<not> IsNaN v)
                   (map (\<lambda>covs. CovGetResult example_stats (covs ! lag)) example_covs)"
    by auto
  from v have "meanVars ! 0 = [Num 1, Num 2]" "meanVars ! 1 = [Num 1]"
    by (simp_all add: example_covs_def example_stats_def)
  with l have "meanVars = [[Num 1, Num 2], [Num 1]]"
    by (auto simp: list_eq_iff_nth_eq less_Suc_eq numeral_2_eq_2)
  with m show ?thesis by (simp add: example_covs_def example_stats_def)
qed

text \<open>What the aggregation itself fixes, whatever the order in which the batch results
  arrive: the values each accumulator receives, as a multiset. What an accumulator
  computes from them is floating-point arithmetic of the imported package.\<close>

lemma collect_delivery_order:
  assumes "mset covsChan' = mset covsChan"
    and "collect st covsChan maxl = Inr meanVars"
    and "collect st covsChan' maxl = Inr meanVars'"
  shows "length meanVars' = length meanVars
         \<and> (\<forall>lag < nat maxl. mset (meanVars' ! lag) = mset (meanVars ! lag))"
proof -
  note a = collectLoop_Inr [OF assms(2) [unfolded collect_def]]
  note b = collectLoop_Inr [OF assms(3) [unfolded collect_def]]
  have "mset (filter P (map f (filter Q covsChan'))) = mset (filter P (map f (filter Q covsChan)))"
    for P :: "float64 \<Rightarrow> bool" and f :: "BivariateCovariance list \<Rightarrow> float64" and Q
    using assms(1) by (metis mset_filter mset_map)
  with a b show ?thesis by simp
qed

subsection \<open>Output\<close>

lemma writeLoop_length: "length (writeLoop st meanVars i ks) = length meanVars"
  by (induction meanVars arbitrary: i ks) (simp_all add: Let_def)

lemma writeLoop_later:
  "0 < i \<Longrightarrow> k < length meanVars \<Longrightarrow>
     writeLoop st meanVars i ks ! k =
       \<lparr>row_l = i + k, row_m = Divide st (MeanGetResult st (meanVars ! k)) ks,
        row_v = VarGetResult st (meanVars ! k), row_n = MeanGetN st (meanVars ! k),
        row_t = ''P2'', row_b = ''all''\<rparr>"
proof (induction meanVars arbitrary: i k)
  case Nil
  then show ?case by simp
next
  case (Cons mv meanVars)
  show ?case
  proof (cases k)
    case 0
    with Cons.prems show ?thesis by (simp add: Let_def)
  next
    case (Suc k')
    with Cons.prems Cons.IH [of "Suc i" k'] show ?thesis by (simp add: Let_def)
  qed
qed

lemma writeRows_row:
  assumes "k < length meanVars"
  shows "writeRows st meanVars ! k =
       \<lparr>row_l = k,
        row_m = (if k = 0 then MeanGetResult st (meanVars ! 0)
                 else Divide st (MeanGetResult st (meanVars ! k)) (MeanGetResult st (meanVars ! 0))),
        row_v = VarGetResult st (meanVars ! k), row_n = MeanGetN st (meanVars ! k),
        row_t = (if k = 0 then ''Ks'' else ''P2''), row_b = ''all''\<rparr>"
proof (cases meanVars)
  case Nil
  with assms show ?thesis by simp
next
  case (Cons mv rest)
  show ?thesis
  proof (cases k)
    case 0
    with Cons show ?thesis by (simp add: writeRows_def Let_def)
  next
    case (Suc k')
    with assms Cons have "k' < length rest" by simp
    from writeLoop_later [OF _ this, of "Suc 0" st "MeanGetResult st mv"] Suc Cons
    show ?thesis by (simp add: writeRows_def Let_def)
  qed
qed

text \<open>
  Claim C9. For the accumulators that \<^verbatim>\<open>collect\<close> returns, the output has one row for each
  lag in \<open>[0, maxl)\<close>, with the lag, the mean, the variance, the count and the label: the
  label is \<open>Ks\<close> for lag 0 and \<open>P2\<close> for every other lag; the mean of row 0 is the mean
  of accumulator 0, and the mean of every other row is the mean of its accumulator divided
  by the mean of accumulator 0. The accumulators hold the batch results as they came, so
  the division happens only when the rows are written.
\<close>

theorem writeRows_normalised:
  assumes "collect st covsChan maxl = Inr meanVars"
  shows "length (writeRows st meanVars) = nat maxl
         \<and> (\<forall>lag < nat maxl. writeRows st meanVars ! lag =
              \<lparr>row_l = lag,
               row_m = (if lag = 0 then MeanGetResult st (meanVars ! 0)
                        else Divide st (MeanGetResult st (meanVars ! lag))
                               (MeanGetResult st (meanVars ! 0))),
               row_v = VarGetResult st (meanVars ! lag),
               row_n = MeanGetN st (meanVars ! lag),
               row_t = (if lag = 0 then ''Ks'' else ''P2''),
               row_b = ''all''\<rparr>)
         \<and> (\<forall>lag < nat maxl. meanVars ! lag =
              filter (\<lambda>v. \<not> IsNaN v)
                (map (\<lambda>covs. CovGetResult st (covs ! lag))
                   (filter (\<lambda>covs. lag < length covs) covsChan)))"
proof -
  from collectLoop_Inr [OF assms [unfolded collect_def]]
  have len: "length meanVars = nat maxl"
    and agg: "\<forall>lag < nat maxl. meanVars ! lag =
              filter (\<lambda>v. \<not> IsNaN v)
                (map (\<lambda>covs. CovGetResult st (covs ! lag))
                   (filter (\<lambda>covs. lag < length covs) covsChan))"
    by simp_all
  have "length (writeRows st meanVars) = nat maxl"
    using len by (simp add: writeRows_def writeLoop_length)
  moreover have "\<forall>lag < nat maxl. writeRows st meanVars ! lag =
              \<lparr>row_l = lag,
               row_m = (if lag = 0 then MeanGetResult st (meanVars ! 0)
                        else Divide st (MeanGetResult st (meanVars ! lag))
                               (MeanGetResult st (meanVars ! 0))),
               row_v = VarGetResult st (meanVars ! lag),
               row_n = MeanGetN st (meanVars ! lag),
               row_t = (if lag = 0 then ''Ks'' else ''P2''),
               row_b = ''all''\<rparr>"
    using len writeRows_row [of _ meanVars st] by simp
  ultimately show ?thesis using agg by blast
qed

theorem writeRows_normalised_witness:
  "collect example_stats example_covs 2 = Inr [[Num 1, Num 2], [Num 1]]
   \<and> length (writeRows example_stats [[Num 1, Num 2], [Num 1]]) = 2
   \<and> writeRows example_stats [[Num 1, Num 2], [Num 1]] ! 0 =
       \<lparr>row_l = 0, row_m = Num (3 / 2), row_v = NaN, row_n = 2, row_t = ''Ks'', row_b = ''all''\<rparr>
   \<and> writeRows example_stats [[Num 1, Num 2], [Num 1]] ! 1 =
       \<lparr>row_l = 1, row_m = Num (2 / 3), row_v = NaN, row_n = 1, row_t = ''P2'', row_b = ''all''\<rparr>"
proof -
  note t = writeRows_normalised [OF example_collect]
  from t have "length (writeRows example_stats [[Num 1, Num 2], [Num 1]]) = 2"
    by simp
  moreover from t have "writeRows example_stats [[Num 1, Num 2], [Num 1]] ! 0 =
       \<lparr>row_l = 0, row_m = Num (3 / 2), row_v = NaN, row_n = 2, row_t = ''Ks'', row_b = ''all''\<rparr>"
    by (simp add: example_stats_def)
  moreover from t have "writeRows example_stats [[Num 1, Num 2], [Num 1]] ! 1 =
       \<lparr>row_l = 1, row_m = Num (2 / 3), row_v = NaN, row_n = 1, row_t = ''P2'', row_b = ''all''\<rparr>"
    by (simp add: example_stats_def)
  ultimately show ?thesis using example_collect by simp
qed

end
